theory Spec2Isabelle
  imports Complex_Main "HOL-Library.Multiset" "HOL-Library.AList"
begin

section \<open>Numbers of the source language\<close>

text \<open>
  The plugin computes with JavaScript numbers. Finite doubles are idealised as reals
  (no rounding, no overflow); the special values that division and subtraction can
  create are kept, since the program's behaviour on them is what several properties
  are about.
\<close>

datatype jsnum = Num real | PosInf | NegInf | NaN

text \<open>\<open>x / y\<close> for finite \<open>x\<close> and a finite \<open>y\<close> that is never negative zero.\<close>

definition js_div :: "real \<Rightarrow> real \<Rightarrow> jsnum" where
  "js_div x y =
     (if y \<noteq> 0 then Num (x / y)
      else if x = 0 then NaN
      else if 0 < x then PosInf else NegInf)"

fun js_add :: "jsnum \<Rightarrow> jsnum \<Rightarrow> jsnum" where
  "js_add (Num a) (Num b) = Num (a + b)"
| "js_add NaN _ = NaN"
| "js_add _ NaN = NaN"
| "js_add PosInf NegInf = NaN"
| "js_add NegInf PosInf = NaN"
| "js_add PosInf _ = PosInf"
| "js_add _ PosInf = PosInf"
| "js_add NegInf _ = NegInf"
| "js_add _ NegInf = NegInf"

fun js_neg :: "jsnum \<Rightarrow> jsnum" where
  "js_neg (Num a) = Num (- a)"
| "js_neg PosInf = NegInf"
| "js_neg NegInf = PosInf"
| "js_neg NaN = NaN"

definition js_sub :: "jsnum \<Rightarrow> jsnum \<Rightarrow> jsnum" where
  "js_sub a b = js_add a (js_neg b)"

text \<open>\<open>s / n\<close> where \<open>n\<close> is an array length.\<close>

fun js_div_len :: "jsnum \<Rightarrow> nat \<Rightarrow> jsnum" where
  "js_div_len (Num a) n = js_div a (real n)"
| "js_div_len PosInf n = PosInf"
| "js_div_len NegInf n = NegInf"
| "js_div_len NaN n = NaN"

text \<open>\<open>a >= b\<close>: every comparison with \<open>NaN\<close> is false.\<close>

fun js_ge :: "jsnum \<Rightarrow> jsnum \<Rightarrow> bool" where
  "js_ge (Num a) (Num b) = (b \<le> a)"
| "js_ge NaN _ = False"
| "js_ge _ NaN = False"
| "js_ge PosInf _ = True"
| "js_ge _ NegInf = True"
| "js_ge _ PosInf = False"
| "js_ge NegInf _ = False"

text \<open>Whether a comparator result counts as positive (\<open>NaN\<close> is read as \<open>+0\<close>).\<close>

fun js_positive :: "jsnum \<Rightarrow> bool" where
  "js_positive (Num a) = (0 < a)"
| "js_positive PosInf = True"
| "js_positive NegInf = False"
| "js_positive NaN = False"

section \<open>Data model\<close>

record TFile =
  path :: string
  basename :: string
  extension :: string

datatype role = User | Assistant | System

record ChatMessage =
  role :: role
  content :: string

record TextChunk =
  tc_text :: string
  startLine :: int
  endLine :: int

record IndexedChunk =
  ic_file :: TFile
  ic_text :: string
  embedding :: "real list"
  ic_startLine :: int
  ic_endLine :: int

record VaultIndex =
  chunks :: "IndexedChunk list"
  lastUpdated :: int

record MatchingChunk =
  mc_text :: string
  mc_startLine :: int
  mc_endLine :: int
  score :: jsnum

record SimilarNote =
  sn_file :: TFile
  sn_score :: jsnum
  selected :: bool
  matchingChunks :: "MatchingChunk list"

section \<open>Chunker\<close>

text \<open>
  A string is a list of code units; \<open>text.split('\n')\<close> always yields at least one
  line, and \<open>lines.join('\n')\<close> puts the separators back.
\<close>

definition newline :: char where
  "newline = CHR 0x0A"

fun split_lines :: "string \<Rightarrow> string list" where
  "split_lines [] = [[]]"
| "split_lines (c # cs) =
     (if c = newline then [] # split_lines cs
      else (case split_lines cs of
              [] \<Rightarrow> [[c]]
            | l # ls \<Rightarrow> (c # l) # ls))"

fun join_lines :: "string list \<Rightarrow> string" where
  "join_lines [] = []"
| "join_lines [l] = l"
| "join_lines (l # ls) = l @ newline # join_lines ls"

text \<open>\<open>Math.ceil(text.length / 4)\<close>.\<close>

definition estimateTokens :: "string \<Rightarrow> nat" where
  "estimateTokens t = (length t + 3) div 4"

text \<open>
  The inner loop of \<open>chunkText\<close>: \<open>j\<close> walks the closed buffer from its last line
  backwards (the first argument is the part of the buffer not yet visited, last line
  first) while \<open>overlapSize < overlap\<close>; each visited line is put in front of
  \<open>overlapLines\<close>.
\<close>

fun overlap_loop :: "string list \<Rightarrow> int \<Rightarrow> string list \<Rightarrow> nat \<Rightarrow> string list \<times> nat" where
  "overlap_loop [] overlap overlapLines overlapSize = (overlapLines, overlapSize)"
| "overlap_loop (l # rest) overlap overlapLines overlapSize =
     (if int overlapSize < overlap
      then overlap_loop rest overlap (l # overlapLines) (overlapSize + estimateTokens l)
      else (overlapLines, overlapSize))"

text \<open>
  The outer loop, from line index \<open>i\<close> on, with the loop's variables \<open>chunks\<close> (here \<open>out\<close>),
  \<open>currentChunk\<close>, \<open>currentSize\<close> and \<open>startLine\<close>.
\<close>

fun chunk_loop ::
  "int \<Rightarrow> int \<Rightarrow> string list \<Rightarrow> nat \<Rightarrow> TextChunk list \<Rightarrow> string list \<Rightarrow> nat \<Rightarrow> int
     \<Rightarrow> TextChunk list \<times> string list \<times> int" where
  "chunk_loop chunkSize overlap [] i out currentChunk currentSize start =
     (out, currentChunk, start)"
| "chunk_loop chunkSize overlap (line # rest) i out currentChunk currentSize start =
     (let lineTokens = estimateTokens line in
      if int (currentSize + lineTokens) > chunkSize \<and> currentChunk \<noteq> [] then
        (case overlap_loop (rev currentChunk) overlap [] 0 of
           (overlapLines, overlapSize) \<Rightarrow>
             chunk_loop chunkSize overlap rest (Suc i)
               (out @ [\<lparr>tc_text = join_lines currentChunk, startLine = start,
                            endLine = int i - 1\<rparr>])
               (overlapLines @ [line]) (overlapSize + lineTokens)
               (int i - int (length overlapLines)))
      else
        chunk_loop chunkSize overlap rest (Suc i) out
          (currentChunk @ [line]) (currentSize + lineTokens) start)"

definition chunkText :: "string \<Rightarrow> int \<Rightarrow> int \<Rightarrow> TextChunk list" where
  "chunkText txt chunkSize overlap =
     (let lines = split_lines txt in
      case chunk_loop chunkSize overlap lines 0 [] [] 0 0 of
        (out, currentChunk, start) \<Rightarrow>
          if currentChunk \<noteq> [] then
            out @ [\<lparr>tc_text = join_lines currentChunk, startLine = start,
                         endLine = int (length lines) - 1\<rparr>]
          else out)"

text \<open>
  Vocabulary for the chunker's properties: the estimated tokens of a run of lines, the
  lines \<open>a..b\<close> of a text, and what holds of a window of overlap lines under a budget:
  without its earliest line it stays below the budget.
\<close>

definition tokens :: "string list \<Rightarrow> nat" where
  "tokens ls = sum_list (map estimateTokens ls)"

definition lines_between :: "string list \<Rightarrow> int \<Rightarrow> int \<Rightarrow> string list" where
  "lines_between ls a b = take (nat (b + 1 - a)) (drop (nat a) ls)"

definition window_ok :: "int \<Rightarrow> string list \<Rightarrow> bool" where
  "window_ok overlap w = (w = [] \<or> int (tokens (tl w)) < overlap)"

text \<open>
  A sequence of chunks over the lines \<open>ls\<close>, after a chunk with range \<open>ps..pe\<close>
  (\<open>0..-1\<close> before the first chunk). Each chunk starts inside or right after its
  predecessor and ends after it; its text is the join of its whole lines; the lines it
  shares with its predecessor, \<open>startLine..pe\<close>, are a window within the budget in the
  sense above, and this window is the whole predecessor or reaches the budget.
\<close>

fun chunks_ok :: "string list \<Rightarrow> int \<Rightarrow> int \<Rightarrow> int \<Rightarrow> TextChunk list \<Rightarrow> bool" where
  "chunks_ok ls overlap ps pe [] = True"
| "chunks_ok ls overlap ps pe (c # cs) =
     (0 \<le> startLine c \<and> ps \<le> startLine c \<and> startLine c \<le> pe + 1 \<and> pe < endLine c \<and>
      endLine c < int (length ls) \<and>
      tc_text c = join_lines (lines_between ls (startLine c) (endLine c)) \<and>
      window_ok overlap (lines_between ls (startLine c) pe) \<and>
      (startLine c = ps \<or> overlap \<le> int (tokens (lines_between ls (startLine c) pe))) \<and>
      chunks_ok ls overlap (startLine c) (endLine c) cs)"

text \<open>The line indices that each chunk adds after the end \<open>pe\<close> of its predecessor.\<close>

fun fresh_regions :: "int \<Rightarrow> TextChunk list \<Rightarrow> int list list" where
  "fresh_regions pe [] = []"
| "fresh_regions pe (c # cs) = [pe + 1..endLine c] # fresh_regions (endLine c) cs"

definition prev_start :: "TextChunk list \<Rightarrow> int" where
  "prev_start out = (if out = [] then 0 else startLine (last out))"

definition prev_end :: "TextChunk list \<Rightarrow> int" where
  "prev_end out = (if out = [] then - 1 else endLine (last out))"

text \<open>The invariant of the outer loop of \<open>chunkText\<close> at line index \<open>i\<close>.\<close>

definition loop_inv ::
  "string list \<Rightarrow> int \<Rightarrow> nat \<Rightarrow> TextChunk list \<Rightarrow> string list \<Rightarrow> int \<Rightarrow> bool" where
  "loop_inv ls overlap i out currentChunk start =
     (i \<le> length ls \<and> chunks_ok ls overlap 0 (- 1) out \<and>
      0 \<le> start \<and> prev_start out \<le> start \<and> start \<le> prev_end out + 1 \<and>
      window_ok overlap (lines_between ls start (prev_end out)) \<and>
      (start = prev_start out \<or>
       overlap \<le> int (tokens (lines_between ls start (prev_end out)))) \<and>
      currentChunk = lines_between ls start (int i - 1) \<and>
      prev_end out + 1 \<le> int i \<and> (0 < i \<longrightarrow> prev_end out + 1 < int i))"

section \<open>Similarity search\<close>

text \<open>
  \<open>cosineSimilarity\<close>: the loop accumulates \<open>dotProduct\<close>, \<open>normA\<close> and \<open>normB\<close>;
  it is only reached with arrays of equal length.
\<close>

fun cosine_loop :: "real list \<Rightarrow> real list \<Rightarrow> real \<times> real \<times> real \<Rightarrow> real \<times> real \<times> real" where
  "cosine_loop (x # xs) (y # ys) (dotProduct, normA, normB) =
     cosine_loop xs ys (dotProduct + x * y, normA + x * x, normB + y * y)"
| "cosine_loop _ _ acc = acc"

definition cosineSimilarity :: "real list \<Rightarrow> real list \<Rightarrow> jsnum" where
  "cosineSimilarity a b =
     (if length a \<noteq> length b then Num 0
      else case cosine_loop a b (0, 0, 0) of
             (dotProduct, normA, normB) \<Rightarrow> js_div dotProduct (sqrt normA * sqrt normB))"



text \<open>
  \<open>Array.prototype.sort\<close> with a comparator is stable, and a comparator result of
  \<open>NaN\<close> is read as \<open>+0\<close>. It is modelled as the stable insertion sort, where an
  element moves behind another exactly when the comparator's result for the pair is
  positive. For a comparator that is a consistent ordering every stable sort returns the
  same array; for the others the language leaves the order to the engine.
\<close>

fun array_insert :: "('a \<Rightarrow> 'a \<Rightarrow> jsnum) \<Rightarrow> 'a \<Rightarrow> 'a list \<Rightarrow> 'a list" where
  "array_insert cmp x [] = [x]"
| "array_insert cmp x (y # ys) =
     (if js_positive (cmp x y) then y # array_insert cmp x ys else x # y # ys)"

definition array_sort :: "('a \<Rightarrow> 'a \<Rightarrow> jsnum) \<Rightarrow> 'a list \<Rightarrow> 'a list" where
  "array_sort cmp xs = foldr (array_insert cmp) xs []"

text \<open>\<open>xs.slice(0, e)\<close> for an integer \<open>e\<close>: a negative end counts from the back.\<close>

definition array_slice0 :: "'a list \<Rightarrow> int \<Rightarrow> 'a list" where
  "array_slice0 xs e =
     (if e < 0 then take (nat (int (length xs) + e)) xs else take (nat e) xs)"

definition searchIndex :: "VaultIndex \<Rightarrow> real list \<Rightarrow> int \<Rightarrow> IndexedChunk list" where
  "searchIndex index queryEmbedding topK =
     (let scored = map (\<lambda>chunk. (chunk, cosineSimilarity queryEmbedding (embedding chunk)))
                       (chunks index);
          sorted = array_sort (\<lambda>a b. js_sub (snd b) (snd a)) scored
      in map fst (array_slice0 sorted topK))"




section \<open>Plugin state, persistence and rebuild\<close>

record ConvergeSettings =
  apiKey :: string
  userName :: string
  systemPrompt :: string
  chunkSize :: int
  chunkOverlap :: int
  topK :: int
  useSemanticSearch :: bool
  discoverThreshold :: jsnum

text \<open>What \<open>vault.getAbstractFileByPath\<close> can find at a path.\<close>

datatype TAbstractFile = AFile TFile | AFolder string

type_synonym vault = "string \<Rightarrow> TAbstractFile option"

record PluginState =
  vaultIndex :: VaultIndex
  isIndexing :: bool
  notices :: "string list"

definition initial_plugin :: PluginState where
  "initial_plugin =
     \<lparr>vaultIndex = \<lparr>chunks = [], lastUpdated = 0\<rparr>, isIndexing = False, notices = []\<rparr>"

text \<open>One element of \<open>chunks\<close> in the persisted index file.\<close>

record StoredChunk =
  filePath :: string
  sc_text :: string
  sc_embedding :: "real list"
  sc_startLine :: int
  sc_endLine :: int

text \<open>
  What \<open>loadIndex\<close> finds at the index path: no file, a file whose reading or parsing
  throws, or a parsed document.
\<close>

datatype persisted = Absent | Unreadable | Stored "StoredChunk list" int

definition serialize_chunk :: "IndexedChunk \<Rightarrow> StoredChunk" where
  "serialize_chunk c =
     \<lparr>filePath = path (ic_file c), sc_text = ic_text c, sc_embedding = embedding c,
      sc_startLine = ic_startLine c, sc_endLine = ic_endLine c\<rparr>"

text \<open>The document that \<open>saveIndex\<close> writes.\<close>

definition saveIndex :: "PluginState \<Rightarrow> persisted" where
  "saveIndex s =
     Stored (map serialize_chunk (chunks (vaultIndex s))) (lastUpdated (vaultIndex s))"

text \<open>Whether a stored path still names a file of the vault.\<close>

definition resolves :: "vault \<Rightarrow> string \<Rightarrow> bool" where
  "resolves v p = (case v p of Some (AFile f) \<Rightarrow> True | _ \<Rightarrow> False)"

text \<open>The \<open>for (const item of parsed.chunks)\<close> loop of \<open>loadIndex\<close>.\<close>

fun load_loop :: "vault \<Rightarrow> StoredChunk list \<Rightarrow> IndexedChunk list \<Rightarrow> IndexedChunk list" where
  "load_loop v [] acc = acc"
| "load_loop v (item # items) acc =
     (case v (filePath item) of
        Some (AFile f) \<Rightarrow>
          load_loop v items
            (acc @ [\<lparr>ic_file = f, ic_text = sc_text item, embedding = sc_embedding item,
                      ic_startLine = sc_startLine item, ic_endLine = sc_endLine item\<rparr>])
      | _ \<Rightarrow> load_loop v items acc)"

text \<open>
  \<open>loadIndex\<close>: every exception inside is caught and logged, so the function always
  returns; without a stored file, and after an exception, the index is left as it is.
\<close>

definition loadIndex :: "vault \<Rightarrow> persisted \<Rightarrow> PluginState \<Rightarrow> PluginState" where
  "loadIndex v store s =
     (case store of
        Absent \<Rightarrow> s
      | Unreadable \<Rightarrow> s
      | Stored items ts \<Rightarrow> s\<lparr>vaultIndex := \<lparr>chunks = load_loop v items [], lastUpdated = ts\<rparr>\<rparr>)"

text \<open>
  The services that the plugin awaits: reading a file and embedding a text, which may
  fail (\<open>None\<close>), and the streamed completion call, which either throws with an error
  message (\<open>Inl\<close>) or returns the accumulated content (\<open>Inr\<close>).
\<close>

record Host =
  cachedRead :: "TFile \<Rightarrow> string option"
  getEmbedding :: "string \<Rightarrow> real list option"
  callLLMStreaming :: "ChatMessage list \<Rightarrow> string + string"

text \<open>The loop over the chunks of one file: a chunk whose embedding fails is skipped.\<close>

fun embed_loop :: "Host \<Rightarrow> TFile \<Rightarrow> TextChunk list \<Rightarrow> IndexedChunk list \<Rightarrow> IndexedChunk list" where
  "embed_loop h f [] acc = acc"
| "embed_loop h f (chunk # rest) acc =
     (case getEmbedding h (tc_text chunk) of
        Some e \<Rightarrow>
          embed_loop h f rest
            (acc @ [\<lparr>ic_file = f, ic_text = tc_text chunk, embedding = e,
                      ic_startLine = startLine chunk, ic_endLine = endLine chunk\<rparr>])
      | None \<Rightarrow> embed_loop h f rest acc)"

text \<open>The loop over the files: a read that throws leaves the \<open>try\<close> block (\<open>None\<close>).\<close>

fun files_loop ::
  "ConvergeSettings \<Rightarrow> Host \<Rightarrow> TFile list \<Rightarrow> IndexedChunk list \<Rightarrow> IndexedChunk list option" where
  "files_loop cfg h [] acc = Some acc"
| "files_loop cfg h (f # fs) acc =
     (case cachedRead h f of
        None \<Rightarrow> None
      | Some content' \<Rightarrow>
          files_loop cfg h fs
            (embed_loop h f (chunkText content' (chunkSize cfg) (chunkOverlap cfg)) acc))"

datatype rebuild_result = Rejected | Completed | Failed

text \<open>
  The guard at the head of \<open>rebuildIndex\<close>, and the part after it that sets the flag.
  Notices are recorded with their fixed text, without the counts and the error message
  that the source appends; the progress notice after every tenth file is left out.
\<close>

definition rebuild_enter :: "PluginState \<Rightarrow> rebuild_result option \<times> PluginState" where
  "rebuild_enter s =
     (if isIndexing s
      then (Some Rejected, s\<lparr>notices := notices s @ [''Indexing already in progress...'']\<rparr>)
      else (None, s\<lparr>isIndexing := True,
                     notices := notices s @ [''Building semantic search index...'']\<rparr>))"

text \<open>
  The \<open>try\<close> block, its \<open>catch\<close>, and the \<open>finally\<close>. \<open>files = None\<close> stands for
  \<open>getMarkdownFiles\<close> throwing. \<open>saveIndex\<close> catches its own errors and changes no
  field of the plugin.
\<close>

definition rebuild_try ::
  "ConvergeSettings \<Rightarrow> Host \<Rightarrow> TFile list option \<Rightarrow> int \<Rightarrow> PluginState \<Rightarrow> PluginState option" where
  "rebuild_try cfg h files now s =
     (case files of
        None \<Rightarrow> None
      | Some fs \<Rightarrow>
          (case files_loop cfg h fs [] of
             None \<Rightarrow> None
           | Some cs \<Rightarrow>
               Some (s\<lparr>vaultIndex := \<lparr>chunks = cs, lastUpdated = now\<rparr>,
                       notices := notices s @ [''Index complete'']\<rparr>)))"

definition rebuild_catch :: "PluginState \<Rightarrow> PluginState" where
  "rebuild_catch s = s\<lparr>notices := notices s @ [''Indexing failed'']\<rparr>"

definition rebuild_finally :: "PluginState \<Rightarrow> PluginState" where
  "rebuild_finally s = s\<lparr>isIndexing := False\<rparr>"

definition rebuild_run ::
  "ConvergeSettings \<Rightarrow> Host \<Rightarrow> TFile list option \<Rightarrow> int \<Rightarrow> PluginState
     \<Rightarrow> rebuild_result \<times> PluginState" where
  "rebuild_run cfg h files now s =
     (case rebuild_try cfg h files now s of
        Some s' \<Rightarrow> (Completed, rebuild_finally s')
      | None \<Rightarrow> (Failed, rebuild_finally (rebuild_catch s)))"

text \<open>\<open>rebuildIndex\<close> run from its call to its return with nothing in between.\<close>

definition rebuildIndex ::
  "ConvergeSettings \<Rightarrow> Host \<Rightarrow> TFile list option \<Rightarrow> int \<Rightarrow> PluginState
     \<Rightarrow> rebuild_result \<times> PluginState" where
  "rebuildIndex cfg h files now s =
     (case rebuild_enter s of
        (Some r, s') \<Rightarrow> (r, s')
      | (None, s') \<Rightarrow> rebuild_run cfg h files now s')"

text \<open>
  The plugin between the awaits of its rebuilds. \<open>rebuildIndex\<close> suspends at every read,
  embedding and write, and other handlers run meanwhile, so the state is paired with the
  number of invocations that have passed the guard and not yet left \<open>finally\<close>. An
  invocation in flight changes the plugin's fields only when it assigns the new index,
  in its \<open>catch\<close> and in its \<open>finally\<close>; the steps of different invocations may
  interleave in any order.
\<close>

inductive reachable :: "PluginState \<times> nat \<Rightarrow> bool" where
  start: "reachable (initial_plugin, 0)"
| load: "reachable (s, n) \<Longrightarrow> reachable (loadIndex v store s, n)"
| request: "reachable (s, n) \<Longrightarrow>
     reachable (snd (rebuild_enter s), (if isIndexing s then n else Suc n))"
| assigned: "reachable (s, Suc n) \<Longrightarrow> rebuild_try cfg h files now s = Some s' \<Longrightarrow>
     reachable (s', Suc n)"
| caught: "reachable (s, Suc n) \<Longrightarrow> reachable (rebuild_catch s, Suc n)"
| finished: "reachable (s, Suc n) \<Longrightarrow> reachable (rebuild_finally s, n)"

code_pred reachable .

section \<open>Chat view\<close>

record ChatState =
  messages :: "ChatMessage list"
  contextNotes :: "TFile list"
  isLoading :: bool
  semanticResults :: "IndexedChunk list"
  similarNotes :: "SimilarNote list"
  inputValue :: string
  chatNotices :: "string list"

definition initial_chat :: ChatState where
  "initial_chat =
     \<lparr>messages = [], contextNotes = [], isLoading = False, semanticResults = [],
      similarNotes = [], inputValue = [], chatNotices = []\<rparr>"

subsection \<open>Context notes\<close>

text \<open>\<open>!this.contextNotes.find(f => f.path === p)\<close>.\<close>

definition not_in_context :: "TFile list \<Rightarrow> string \<Rightarrow> bool" where
  "not_in_context notes p = (find (\<lambda>f. path f = p) notes = None)"

definition ends_with :: "string \<Rightarrow> string \<Rightarrow> bool" where
  "ends_with s suffix = (length suffix \<le> length s \<and> drop (length s - length suffix) s = suffix)"

definition starts_with :: "string \<Rightarrow> string \<Rightarrow> bool" where
  "starts_with s pre = (take (length pre) s = pre)"

text \<open>
  The drop handler of \<open>setupDropZone\<close>, from the decoded path on; an absent path is the
  empty string.
\<close>

definition ondrop :: "vault \<Rightarrow> string \<Rightarrow> TFile list \<Rightarrow> TFile list" where
  "ondrop v dropped notes =
     (let filePath' = (if dropped \<noteq> [] \<and> \<not> ends_with dropped ''.md''
                       then dropped @ ''.md'' else dropped)
      in if filePath' = [] then notes
         else (case v filePath' of
                 Some (AFile f) \<Rightarrow>
                   if extension f = ''md''
                   then (if not_in_context notes (path f) then notes @ [f] else notes)
                   else notes
               | _ \<Rightarrow> notes))"

text \<open>The callback of \<open>showNoteSuggest\<close>.\<close>

definition showNoteSuggest :: "TFile \<Rightarrow> TFile list \<Rightarrow> TFile list" where
  "showNoteSuggest f notes = (if not_in_context notes (path f) then notes @ [f] else notes)"

text \<open>
  The metadata cache entry of a file, as far as \<open>showTagSuggest\<close> reads it: the inline
  tags and the front-matter tags when they are an array.
\<close>

record FileCache =
  tags :: "string list option"
  frontmatterTags :: "string list option"

definition hasTag :: "FileCache option \<Rightarrow> string \<Rightarrow> bool" where
  "hasTag cache tag =
     (case cache of
        None \<Rightarrow> False
      | Some c \<Rightarrow>
          (let inline = (case tags c of None \<Rightarrow> False | Some ts \<Rightarrow> list_ex (\<lambda>t. t = tag) ts)
           in if inline then True
              else (case frontmatterTags c of
                      None \<Rightarrow> False
                    | Some ts \<Rightarrow> list_ex (\<lambda>t. CHR ''#'' # t = tag) ts)))"

fun showTagSuggest ::
  "(TFile \<Rightarrow> FileCache option) \<Rightarrow> string \<Rightarrow> TFile list \<Rightarrow> TFile list \<Rightarrow> TFile list" where
  "showTagSuggest cache tag [] notes = notes"
| "showTagSuggest cache tag (f # fs) notes =
     showTagSuggest cache tag fs
       (if hasTag (cache f) tag \<and> not_in_context notes (path f) then notes @ [f] else notes)"

fun showFolderSuggest :: "string \<Rightarrow> TFile list \<Rightarrow> TFile list \<Rightarrow> TFile list" where
  "showFolderSuggest folder [] notes = notes"
| "showFolderSuggest folder (f # fs) notes =
     showFolderSuggest folder fs
       (if starts_with (path f) (folder @ ''/'')
        then (if not_in_context notes (path f) then notes @ [f] else notes)
        else notes)"

text \<open>
  \<open>addLinkedNotes\<close>: the loop over the links of the active note, each already resolved
  by \<open>getFirstLinkpathDest\<close> (\<open>None\<close> when it resolves to nothing).
\<close>

fun linked_loop :: "TFile option list \<Rightarrow> TFile list \<Rightarrow> TFile list" where
  "linked_loop [] notes = notes"
| "linked_loop (l # ls) notes =
     linked_loop ls
       (case l of
          Some linkedFile \<Rightarrow>
            if not_in_context notes (path linkedFile) then notes @ [linkedFile] else notes
        | None \<Rightarrow> notes)"

definition addLinkedNotes ::
  "TFile option \<Rightarrow> TFile option list option \<Rightarrow> TFile list \<Rightarrow> TFile list" where
  "addLinkedNotes activeFile links notes =
     (case activeFile of
        None \<Rightarrow> notes
      | Some _ \<Rightarrow> (case links of None \<Rightarrow> notes | Some ls \<Rightarrow> linked_loop ls notes))"

definition autoAddCurrentNote :: "TFile option \<Rightarrow> TFile list \<Rightarrow> TFile list" where
  "autoAddCurrentNote activeFile notes =
     (case activeFile of
        None \<Rightarrow> notes
      | Some f \<Rightarrow>
          if extension f = ''md'' \<and> not_in_context notes (path f) then [f] else notes)"

text \<open>The remove button of an entry of the context list.\<close>

definition remove_context :: "string \<Rightarrow> TFile list \<Rightarrow> TFile list" where
  "remove_context p notes = filter (\<lambda>f. path f \<noteq> p) notes"

text \<open>
  Everything that assigns or extends \<open>contextNotes\<close>, each event with what its handler
  reads from the host.
\<close>

datatype context_event =
    Dropped vault string
  | NotePicked TFile
  | TagPicked "TFile \<Rightarrow> FileCache option" string "TFile list"
  | FolderPicked string "TFile list"
  | LinkedAdded "TFile option" "TFile option list option"
  | AutoAdded "TFile option"
  | Removed string
  | Cleared

fun context_step :: "TFile list \<Rightarrow> context_event \<Rightarrow> TFile list" where
  "context_step notes (Dropped v p) = ondrop v p notes"
| "context_step notes (NotePicked f) = showNoteSuggest f notes"
| "context_step notes (TagPicked cache tag files) = showTagSuggest cache tag files notes"
| "context_step notes (FolderPicked folder files) = showFolderSuggest folder files notes"
| "context_step notes (LinkedAdded activeFile links) = addLinkedNotes activeFile links notes"
| "context_step notes (AutoAdded activeFile) = autoAddCurrentNote activeFile notes"
| "context_step notes (Removed p) = remove_context p notes"
| "context_step notes Cleared = []"

definition context_after :: "context_event list \<Rightarrow> TFile list" where
  "context_after events = foldl context_step (contextNotes initial_chat) events"

subsection \<open>Sending a message\<close>

definition is_space :: "char \<Rightarrow> bool" where
  "is_space c = (c \<in> set [CHR '' '', CHR 0x09, CHR 0x0A, CHR 0x0B, CHR 0x0C, CHR 0x0D])"

definition trim :: "string \<Rightarrow> string" where
  "trim t = rev (dropWhile is_space (rev (dropWhile is_space t)))"

definition semanticSearch ::
  "PluginState \<Rightarrow> Host \<Rightarrow> string \<Rightarrow> int \<Rightarrow> IndexedChunk list option" where
  "semanticSearch plugin h query k =
     (if chunks (vaultIndex plugin) = [] then Some []
      else (case getEmbedding h query of
              None \<Rightarrow> None
            | Some queryEmbedding \<Rightarrow> Some (searchIndex (vaultIndex plugin) queryEmbedding k)))"

definition performSemanticSearch ::
  "ConvergeSettings \<Rightarrow> PluginState \<Rightarrow> Host \<Rightarrow> string \<Rightarrow> ChatState \<Rightarrow> ChatState" where
  "performSemanticSearch cfg plugin h query s =
     (if trim query = [] then s
      else if chunks (vaultIndex plugin) = []
      then s\<lparr>chatNotices := chatNotices s @ [''No index available. Build index first.'']\<rparr>
      else (case semanticSearch plugin h query (topK cfg) of
              Some results \<Rightarrow> s\<lparr>semanticResults := results\<rparr>
            | None \<Rightarrow> s))"

text \<open>The loop that reads the context notes; a read that throws ends \<open>sendMessage\<close>.\<close>

fun read_context :: "Host \<Rightarrow> TFile list \<Rightarrow> string \<Rightarrow> string option" where
  "read_context h [] contextText = Some contextText"
| "read_context h (f # fs) contextText =
     (case cachedRead h f of
        None \<Rightarrow> None
      | Some content' \<Rightarrow>
          read_context h fs
            (contextText @ [newline, newline] @ ''--- '' @ basename f @ '' ---'' @ [newline]
               @ content'))"

definition semantic_text :: "IndexedChunk list \<Rightarrow> string" where
  "semantic_text results =
     (if results = [] then []
      else [newline, newline] @ ''--- Semantically Relevant Chunks ---'' @
           concat (map (\<lambda>chunk. [newline, newline] @ ''[From '' @ basename (ic_file chunk)
                                  @ '']:'' @ [newline] @ ic_text chunk) results))"

definition system_content :: "ConvergeSettings \<Rightarrow> string \<Rightarrow> string" where
  "system_content cfg contextText =
     systemPrompt cfg
       @ (if userName cfg \<noteq> []
          then [newline, newline] @ ''The user's name is '' @ userName cfg @ ''.'' else [])
       @ (if contextText \<noteq> []
          then [newline, newline] @ ''Context from user's notes:'' @ contextText else [])"

datatype send_result = Ignored | MissingKey | Sent | SendFailed string | ReadThrew

definition sendMessage ::
  "ConvergeSettings \<Rightarrow> PluginState \<Rightarrow> Host \<Rightarrow> ChatState \<Rightarrow> send_result \<times> ChatState" where
  "sendMessage cfg plugin h s =
     (let userInput = trim (inputValue s) in
      if userInput = [] \<or> isLoading s then (Ignored, s)
      else if apiKey cfg = []
      then (MissingKey,
            s\<lparr>chatNotices := chatNotices s @ [''Please configure your API key in settings'']\<rparr>)
      else
        (let s1 = s\<lparr>isLoading := True,
                     messages := messages s @ [\<lparr>role = User, content = userInput\<rparr>],
                     inputValue := []\<rparr>;
             s2 = (if useSemanticSearch cfg \<and> chunks (vaultIndex plugin) \<noteq> []
                   then performSemanticSearch cfg plugin h userInput s1 else s1)
         in case read_context h (contextNotes s2) [] of
              None \<Rightarrow> (ReadThrew, s2)
            | Some notesText \<Rightarrow>
                (let contextText = notesText @ semantic_text (semanticResults s2);
                     apiMessages = \<lparr>role = System, content = system_content cfg contextText\<rparr>
                                     # messages s2
                 in case callLLMStreaming h apiMessages of
                      Inr response \<Rightarrow>
                        (Sent,
                         s2\<lparr>messages := messages s2 @ [\<lparr>role = Assistant, content = response\<rparr>],
                            isLoading := False\<rparr>)
                    | Inl err \<Rightarrow>
                        (SendFailed err,
                         s2\<lparr>chatNotices := chatNotices s2 @ [''Error: '' @ err],
                            messages := butlast (messages s2),
                            isLoading := False\<rparr>))))"

section \<open>Discovery: similar notes\<close>

text \<open>
  The value type of the \<open>fileScores\<close> map. The map keeps its keys in insertion order
  and is modelled as an association list.
\<close>

record FileEntry =
  fe_file :: TFile
  scores :: "jsnum list"
  fe_chunks :: "MatchingChunk list"

fun group_loop ::
  "string \<Rightarrow> real list \<Rightarrow> IndexedChunk list \<Rightarrow> (string \<times> FileEntry) list
     \<Rightarrow> (string \<times> FileEntry) list" where
  "group_loop self queryEmbedding [] fileScores = fileScores"
| "group_loop self queryEmbedding (chunk # rest) fileScores =
     (if path (ic_file chunk) = self then group_loop self queryEmbedding rest fileScores
      else
        (let similarity = cosineSimilarity queryEmbedding (embedding chunk);
             key = path (ic_file chunk);
             fileScores1 =
               (if map_of fileScores key = None
                then fileScores @ [(key, \<lparr>fe_file = ic_file chunk, scores = [], fe_chunks = []\<rparr>)]
                else fileScores)
         in group_loop self queryEmbedding rest
              (AList.map_entry key
                 (\<lambda>entry. entry\<lparr>scores := scores entry @ [similarity],
                                 fe_chunks := fe_chunks entry @
                                   [\<lparr>mc_text = ic_text chunk, mc_startLine = ic_startLine chunk,
                                     mc_endLine = ic_endLine chunk, score = similarity\<rparr>]\<rparr>)
                 fileScores1)))"

text \<open>The function given to \<open>map\<close>: average, sort the chunks, keep five.\<close>

definition to_note :: "jsnum \<Rightarrow> FileEntry \<Rightarrow> SimilarNote" where
  "to_note threshold entry =
     (let avgScore = js_div_len (foldl js_add (Num 0) (scores entry)) (length (scores entry));
          sortedChunks = array_sort (\<lambda>a b. js_sub (score b) (score a)) (fe_chunks entry)
      in \<lparr>sn_file = fe_file entry, sn_score = avgScore, selected = js_ge avgScore threshold,
          matchingChunks = take 5 sortedChunks\<rparr>)"

text \<open>The list assigned to \<open>this.similarNotes\<close> before the threshold filter runs.\<close>

definition rank_notes :: "jsnum \<Rightarrow> VaultIndex \<Rightarrow> string \<Rightarrow> real list \<Rightarrow> SimilarNote list" where
  "rank_notes threshold index self queryEmbedding =
     array_sort (\<lambda>a b. js_sub (sn_score b) (sn_score a))
       (map (\<lambda>kv. to_note threshold (snd kv))
            (group_loop self queryEmbedding (chunks index) []))"








section \<open>Discovery: threshold filter\<close>

text \<open>
  \<open>ChatView.filterSimilarNotes\<close>: the loop assigns \<open>note.selected\<close> for every element
  of \<open>this.similarNotes\<close> in place; rendering does not change the list.
\<close>

fun filterSimilarNotes :: "jsnum \<Rightarrow> SimilarNote list \<Rightarrow> SimilarNote list" where
  "filterSimilarNotes threshold [] = []"
| "filterSimilarNotes threshold (note # rest) =
     note\<lparr>selected := js_ge (sn_score note) threshold\<rparr> # filterSimilarNotes threshold rest"

text \<open>
  \<open>ChatView.findSimilarNotes\<close>: with an empty index, and when the read or the embedding
  throws, the stored list is not assigned.
\<close>

definition findSimilarNotes ::
  "ConvergeSettings \<Rightarrow> PluginState \<Rightarrow> Host \<Rightarrow> TFile \<Rightarrow> ChatState \<Rightarrow> ChatState" where
  "findSimilarNotes cfg plugin h f s =
     (if chunks (vaultIndex plugin) = [] then s
      else (case cachedRead h f of
              None \<Rightarrow> s
            | Some content' \<Rightarrow>
                (case getEmbedding h (take 2000 content') of
                   None \<Rightarrow> s
                 | Some queryEmbedding \<Rightarrow>
                     s\<lparr>similarNotes :=
                         filterSimilarNotes (discoverThreshold cfg)
                           (rank_notes (discoverThreshold cfg) (vaultIndex plugin) (path f)
                              queryEmbedding)\<rparr>)))"

section \<open>Sample inputs\<close>

text \<open>A host whose every service fails, the completion call with an HTTP 500.\<close>

definition failing_host :: Host where
  "failing_host =
     \<lparr>cachedRead = (\<lambda>f. None), getEmbedding = (\<lambda>t. None),
      callLLMStreaming = (\<lambda>m. Inl ''API error 500: '')\<rparr>"

definition demo_settings :: ConvergeSettings where
  "demo_settings =
     \<lparr>apiKey = ''lm-studio'', userName = [],
      systemPrompt = ''You are a friendly and helpful assistant.'',
      chunkSize = 500, chunkOverlap = 50, topK = 5, useSemanticSearch = False,
      discoverThreshold = Num (7 / 10)\<rparr>"





section \<open>Properties\<close>

text \<open>
  C8. Applying a threshold to an already computed list of similar documents keeps the
  list's length and order, keeps every entry's document, score and matching chunks, and
  sets every entry's \<open>selected\<close> to \<open>score >= threshold\<close>. The function reads nothing
  but the list and the threshold: no index, embedding or search takes part.
\<close>

theorem filterSimilarNotes_pure_refilter:
  "map sn_file (filterSimilarNotes t ns) = map sn_file ns \<and>
   map sn_score (filterSimilarNotes t ns) = map sn_score ns \<and>
   map matchingChunks (filterSimilarNotes t ns) = map matchingChunks ns \<and>
   map selected (filterSimilarNotes t ns) = map (\<lambda>n. js_ge (sn_score n) t) ns"
  by (induction ns) simp_all

subsection \<open>Chunker\<close>

lemma tokens_simps [simp]:
  "tokens [] = 0" "tokens (l # ls) = estimateTokens l + tokens ls"
  "tokens (xs @ ys) = tokens xs + tokens ys"
  by (simp_all add: tokens_def)

lemma overlap_loop_gen:
  assumes "sz = tokens acc" "window_ok ov acc"
  shows "\<exists>k\<le>length ys.
           overlap_loop ys ov acc sz = (rev (take k ys) @ acc, tokens (rev (take k ys) @ acc)) \<and>
           window_ok ov (rev (take k ys) @ acc) \<and>
           (k = length ys \<or> ov \<le> int (tokens (rev (take k ys) @ acc)))"
  using assms
proof (induction ys arbitrary: acc sz)
  case Nil
  then show ?case by simp
next
  case (Cons l rest)
  show ?case
  proof (cases "int sz < ov")
    case True
    have "window_ok ov (l # acc)" using True Cons.prems(1) by (simp add: window_ok_def)
    with Cons.IH[of "sz + estimateTokens l" "l # acc"] Cons.prems(1)
    obtain k where k: "k \<le> length rest"
      "overlap_loop rest ov (l # acc) (sz + estimateTokens l) =
         (rev (take k rest) @ l # acc, tokens (rev (take k rest) @ l # acc))"
      "window_ok ov (rev (take k rest) @ l # acc)"
      "k = length rest \<or> ov \<le> int (tokens (rev (take k rest) @ l # acc))"
      by auto
    show ?thesis
      by (rule exI[of _ "Suc k"]) (use k True in simp)
  next
    case False
    show ?thesis
      by (rule exI[of _ 0]) (use False Cons.prems in simp)
  qed
qed

lemma overlap_loop_window:
  assumes "overlap_loop (rev cur) ov [] 0 = (w, osz)"
  shows "\<exists>pre. cur = pre @ w \<and> osz = tokens w \<and> window_ok ov w \<and> (pre = [] \<or> ov \<le> int (tokens w))"
proof -
  have "window_ok ov []" by (simp add: window_ok_def)
  with overlap_loop_gen[of 0 "[]" ov "rev cur"]
  obtain k where k: "k \<le> length cur"
    "overlap_loop (rev cur) ov [] 0 = (rev (take k (rev cur)), tokens (rev (take k (rev cur))))"
    "window_ok ov (rev (take k (rev cur)))"
    "k = length cur \<or> ov \<le> int (tokens (rev (take k (rev cur))))"
    by auto
  have "w = fst (overlap_loop (rev cur) ov [] 0)" "osz = snd (overlap_loop (rev cur) ov [] 0)"
    by (simp_all add: assms)
  then have w0: "w = rev (take k (rev cur))" and osz0: "osz = tokens (rev (take k (rev cur)))"
    by (simp_all only: k(2) fst_conv snd_conv)
  have osz: "osz = tokens w" by (simp only: osz0 w0)
  have w: "w = drop (length cur - k) cur" using w0 by (simp add: take_rev)
  have "cur = take (length cur - k) cur @ w" by (simp add: w)
  moreover have "take (length cur - k) cur = [] \<or> ov \<le> int (tokens w)"
    using k(1,4) by (auto simp: w take_rev)
  moreover have "window_ok ov w" using k(3) by (simp add: w take_rev)
  ultimately show ?thesis using osz by blast
qed

lemma lines_between_snoc:
  assumes "0 \<le> a" "a \<le> int i" "i < length ls"
  shows "lines_between ls a (int i) = lines_between ls a (int i - 1) @ [ls ! i]"
proof -
  have n: "nat (int i + 1 - a) = Suc (i - nat a)" "nat (int i - 1 + 1 - a) = i - nat a"
    "nat (int i - a) = i - nat a"
    using assms by auto
  have "i - nat a < length (drop (nat a) ls)" using assms by auto
  then have "take (Suc (i - nat a)) (drop (nat a) ls) =
        take (i - nat a) (drop (nat a) ls) @ [drop (nat a) ls ! (i - nat a)]"
    by (rule take_Suc_conv_app_nth)
  moreover have "drop (nat a) ls ! (i - nat a) = ls ! i" using assms by auto
  ultimately show ?thesis by (simp add: lines_between_def n)
qed

lemma lines_between_length:
  assumes "0 \<le> a" "a \<le> b + 1" "b < int (length ls)"
  shows "length (lines_between ls a b) = nat (b + 1 - a)"
  using assms by (auto simp: lines_between_def)

lemma lines_between_suffix:
  assumes "0 \<le> a" "a \<le> int i" "i \<le> length ls" "lines_between ls a (int i - 1) = pre @ w"
  shows "w = lines_between ls (int i - int (length w)) (int i - 1)"
    and "a \<le> int i - int (length w)" and "pre = [] \<longrightarrow> int i - int (length w) = a"
proof -
  have len: "length (pre @ w) = i - nat a"
    using assms by (auto simp: lines_between_def simp flip: assms(4))
  then have lw: "length w \<le> i - nat a" and lp: "length pre = i - nat a - length w" by auto
  show "a \<le> int i - int (length w)" using lw assms(1,2) by linarith
  show "pre = [] \<longrightarrow> int i - int (length w) = a" using len assms(1,2) by auto
  have "w = drop (length pre) (pre @ w)" by simp
  also have "\<dots> = drop (length pre) (take (i - nat a) (drop (nat a) ls))"
  proof -
    have "nat (int i - 1 + 1 - a) = i - nat a" using assms(1,2) by auto
    then show ?thesis by (simp only: flip: assms(4)) (simp only: lines_between_def)
  qed
  also have "\<dots> = take (i - nat a - length pre) (drop (length pre) (drop (nat a) ls))"
    by (simp only: drop_take)
  also have "i - nat a - length pre = length w" using lw lp by simp
  also have "drop (length pre) (drop (nat a) ls) = drop (nat a + length pre) ls"
    by (simp add: add.commute)
  also have "nat a + length pre = nat (int i - int (length w))"
    using lw lp assms(1,2) by auto
  finally show "w = lines_between ls (int i - int (length w)) (int i - 1)"
    by (simp add: lines_between_def)
qed

lemma chunks_ok_snoc:
  "chunks_ok ls ov ps pe (cs @ [c]) \<longleftrightarrow>
     chunks_ok ls ov ps pe cs \<and>
     chunks_ok ls ov (if cs = [] then ps else startLine (last cs))
                     (if cs = [] then pe else endLine (last cs)) [c]"
  by (induction cs arbitrary: ps pe) auto

lemma loop_inv_start: "loop_inv ls ov 0 [] [] 0"
  by (simp add: loop_inv_def prev_start_def prev_end_def window_ok_def lines_between_def)

lemma loop_inv_nonempty:
  assumes "loop_inv ls ov i out cur start" "0 < i"
  shows "cur \<noteq> []"
proof -
  from assms have "0 \<le> start" "start < int i" "i \<le> length ls" "cur = lines_between ls start (int i - 1)"
    by (auto simp: loop_inv_def)
  then have "length cur = nat (int i - start)"
    by (auto simp: lines_between_def)
  with \<open>start < int i\<close> show ?thesis by auto
qed

lemma loop_inv_empty:
  assumes "loop_inv ls ov i out cur start" "cur \<noteq> []"
  shows "0 < i"
proof (rule ccontr)
  assume "\<not> 0 < i"
  then have "i = 0" by simp
  with assms(1) have "cur = []" by (simp add: loop_inv_def lines_between_def)
  with assms(2) show False by simp
qed

lemma loop_inv_push:
  assumes inv: "loop_inv ls ov i out cur start" and i: "i < length ls"
  shows "loop_inv ls ov (Suc i) out (cur @ [ls ! i]) start"
proof -
  from inv have s: "0 \<le> start" "start \<le> int i" by (auto simp: loop_inv_def)
  have "lines_between ls start (int (Suc i) - 1) = lines_between ls start (int i - 1) @ [ls ! i]"
    using lines_between_snoc[OF s i] by simp
  then show ?thesis using inv i by (auto simp: loop_inv_def)
qed

lemma loop_inv_close:
  assumes inv: "loop_inv ls ov i out cur start" and i: "i < length ls" and ne: "cur \<noteq> []"
    and ol: "overlap_loop (rev cur) ov [] 0 = (w, osz)"
  shows "loop_inv ls ov (Suc i)
           (out @ [\<lparr>tc_text = join_lines cur, startLine = start, endLine = int i - 1\<rparr>])
           (w @ [ls ! i]) (int i - int (length w))"
    and "osz = tokens w"
proof -
  let ?c = "\<lparr>tc_text = join_lines cur, startLine = start, endLine = int i - 1\<rparr>"
  let ?s = "int i - int (length w)"
  from overlap_loop_window[OF ol] obtain pre where
    pre: "cur = pre @ w" "osz = tokens w" "window_ok ov w" "pre = [] \<or> ov \<le> int (tokens w)"
    by blast
  show "osz = tokens w" by (rule pre(2))
  have pos: "0 < i" using inv ne by (rule loop_inv_empty)
  from inv have f: "chunks_ok ls ov 0 (- 1) out" "0 \<le> start" "prev_start out \<le> start"
    "start \<le> prev_end out + 1" "window_ok ov (lines_between ls start (prev_end out))"
    "start = prev_start out \<or> ov \<le> int (tokens (lines_between ls start (prev_end out)))"
    "cur = lines_between ls start (int i - 1)" "prev_end out + 1 \<le> int i"
    "prev_end out + 1 < int i"
    using pos by (auto simp: loop_inv_def)
  have si: "start \<le> int i" using f(4,8) by linarith
  have il: "i \<le> length ls" using i by simp
  have cur: "lines_between ls start (int i - 1) = pre @ w" using f(7) pre(1) by simp
  note suf = lines_between_suffix[OF f(2) si il cur]
  have c_ok: "chunks_ok ls ov (if out = [] then 0 else startLine (last out))
                 (if out = [] then - 1 else endLine (last out)) [?c]"
    using f i by (simp add: prev_start_def prev_end_def)
  have ok: "chunks_ok ls ov 0 (- 1) (out @ [?c])"
    by (simp only: chunks_ok_snoc f(1) c_ok simp_thms)
  have s0: "0 \<le> ?s" using suf(2) f(2) by linarith
  have s1: "?s \<le> int i" by simp
  have new_cur: "w @ [ls ! i] = lines_between ls ?s (int (Suc i) - 1)"
    using lines_between_snoc[OF s0 s1 i] suf(1) by simp
  have win: "window_ok ov (lines_between ls ?s (int i - 1))" using pre(3) suf(1) by simp
  have reach: "?s = start \<or> ov \<le> int (tokens (lines_between ls ?s (int i - 1)))"
    using pre(4) suf(1,3) by auto
  show "loop_inv ls ov (Suc i) (out @ [?c]) (w @ [ls ! i]) ?s"
    unfolding loop_inv_def
    using ok s0 suf(2) win reach new_cur i
    by (simp add: prev_start_def prev_end_def)
qed

lemma chunk_loop_inv:
  assumes "ls = done @ rest" "i = length done" "loop_inv ls ov i out cur start" "csz = tokens cur"
    and "chunk_loop cs ov rest i out cur csz start = (out', cur', start')"
  shows "loop_inv ls ov (length ls) out' cur' start'"
  using assms
proof (induction rest arbitrary: "done" i out cur csz start)
  case Nil
  then show ?case by simp
next
  case (Cons line rest)
  have i: "i < length ls" and nth: "ls ! i = line" using Cons.prems(1,2) by simp_all
  have split: "ls = (done @ [line]) @ rest" "Suc i = length (done @ [line])"
    using Cons.prems(1,2) by simp_all
  show ?case
  proof (cases "int (csz + estimateTokens line) > cs \<and> cur \<noteq> []")
    case True
    obtain w osz where ol: "overlap_loop (rev cur) ov [] 0 = (w, osz)" by force
    note close = loop_inv_close[OF Cons.prems(3) i _ ol]
    have inv': "loop_inv ls ov (Suc i)
           (out @ [\<lparr>tc_text = join_lines cur, startLine = start, endLine = int i - 1\<rparr>])
           (w @ [line]) (int i - int (length w))"
      using close(1) True nth by simp
    have sz: "osz + estimateTokens line = tokens (w @ [line])" using close(2) True by simp
    have run: "chunk_loop cs ov rest (Suc i)
           (out @ [\<lparr>tc_text = join_lines cur, startLine = start, endLine = int i - 1\<rparr>])
           (w @ [line]) (osz + estimateTokens line) (int i - int (length w)) = (out', cur', start')"
      using Cons.prems(5) True ol by (simp add: Let_def)
    show ?thesis by (rule Cons.IH[OF split inv' sz run])
  next
    case False
    have inv': "loop_inv ls ov (Suc i) out (cur @ [line]) start"
      using loop_inv_push[OF Cons.prems(3) i] nth by simp
    have sz: "csz + estimateTokens line = tokens (cur @ [line])" using Cons.prems(4) by simp
    have run: "chunk_loop cs ov rest (Suc i) out (cur @ [line]) (csz + estimateTokens line) start
        = (out', cur', start')"
      using Cons.prems(5) False by (auto simp: Let_def)
    show ?thesis by (rule Cons.IH[OF split inv' sz run])
  qed
qed

lemma split_lines_nonempty: "split_lines t \<noteq> []"
  by (induction t) (auto split: list.splits)

lemma split_lines_no_newline: "newline \<notin> set t \<Longrightarrow> split_lines t = [t]"
  by (induction t) auto

lemma chunkText_shape:
  obtains out cur start where
    "chunkText doc cs ov =
       out @ [\<lparr>tc_text = join_lines cur, startLine = start,
                endLine = int (length (split_lines doc)) - 1\<rparr>]"
    "loop_inv (split_lines doc) ov (length (split_lines doc)) out cur start"
proof -
  let ?ls = "split_lines doc"
  obtain out cur start where run: "chunk_loop cs ov ?ls 0 [] [] 0 0 = (out, cur, start)"
    using prod_cases3 by blast
  have inv: "loop_inv ?ls ov (length ?ls) out cur start"
  proof (rule chunk_loop_inv)
    show "split_lines doc = [] @ split_lines doc" by simp
    show "0 = length ([] :: string list)" by simp
    show "loop_inv (split_lines doc) ov 0 [] [] 0" by (rule loop_inv_start)
    show "0 = tokens []" by simp
    show "chunk_loop cs ov (split_lines doc) 0 [] [] 0 0 = (out, cur, start)" by (rule run)
  qed
  have "0 < length ?ls" using split_lines_nonempty[of doc] by simp
  with inv have "cur \<noteq> []" by (rule loop_inv_nonempty)
  then have "chunkText doc cs ov =
       out @ [\<lparr>tc_text = join_lines cur, startLine = start, endLine = int (length ?ls) - 1\<rparr>]"
    by (simp add: chunkText_def Let_def run)
  then show ?thesis using inv that by blast
qed

lemma chunks_ok_last_end:
  "chunks_ok ls ov ps pe cs \<Longrightarrow> cs \<noteq> [] \<Longrightarrow> pe < endLine (last cs)"
proof (induction cs arbitrary: ps pe)
  case Nil
  then show ?case by simp
next
  case (Cons c cs)
  show ?case
  proof (cases "cs = []")
    case True
    with Cons.prems show ?thesis by simp
  next
    case False
    have "chunks_ok ls ov (startLine c) (endLine c) cs" using Cons.prems(1) by simp
    then have "endLine c < endLine (last cs)" using False by (rule Cons.IH)
    with Cons.prems False show ?thesis by simp
  qed
qed

lemma fresh_regions_cover:
  "chunks_ok ls ov ps pe cs \<Longrightarrow>
     concat (fresh_regions pe cs) = [pe + 1..(if cs = [] then pe else endLine (last cs))]"
proof (induction cs arbitrary: ps pe)
  case Nil
  then show ?case by simp
next
  case (Cons c cs)
  have ok: "chunks_ok ls ov (startLine c) (endLine c) cs" and lt: "pe < endLine c"
    using Cons.prems by simp_all
  show ?case
  proof (cases "cs = []")
    case True
    then show ?thesis by simp
  next
    case False
    have e: "endLine c < endLine (last cs)" using ok False by (rule chunks_ok_last_end)
    have "concat (fresh_regions pe (c # cs)) = [pe + 1..endLine c] @ [endLine c + 1..endLine (last cs)]"
      using Cons.IH[OF ok] False by simp
    also have "\<dots> = [pe + 1..endLine (last cs)]"
      using upto_split2[of "pe + 1" "endLine c" "endLine (last cs)"] lt e by simp
    finally show ?thesis using False by simp
  qed
qed

text \<open>
  C2 (amended). For every text, target size and overlap, the chunks of \<open>chunkText\<close> are
  whole-line ranges of the text, each starting inside or right after its predecessor
  and ending after it. The lines a chunk adds after its predecessor's end, taken over
  all chunks in order, are the line indices \<open>0..n-1\<close> of the text, each exactly once.
  The window of lines a chunk shares with its predecessor is the predecessor's shortest
  trailing run of lines whose estimated tokens reach the overlap, or the whole
  predecessor when it never does; so the window without its earliest line has fewer
  estimated tokens than the overlap, while the window itself may exceed it.
\<close>

theorem chunkText_coverage:
  "chunks_ok (split_lines doc) ov 0 (- 1) (chunkText doc cs ov) \<and>
   concat (fresh_regions (- 1) (chunkText doc cs ov)) = [0..int (length (split_lines doc)) - 1]"
proof -
  let ?ls = "split_lines doc"
  obtain out cur start where
    eq: "chunkText doc cs ov =
       out @ [\<lparr>tc_text = join_lines cur, startLine = start, endLine = int (length ?ls) - 1\<rparr>]"
    and inv: "loop_inv ?ls ov (length ?ls) out cur start"
    by (rule chunkText_shape)
  have pos: "0 < length ?ls" using split_lines_nonempty[of doc] by simp
  from inv pos have f: "chunks_ok ?ls ov 0 (- 1) out" "0 \<le> start" "prev_start out \<le> start"
    "start \<le> prev_end out + 1" "window_ok ov (lines_between ?ls start (prev_end out))"
    "start = prev_start out \<or> ov \<le> int (tokens (lines_between ?ls start (prev_end out)))"
    "cur = lines_between ?ls start (int (length ?ls) - 1)"
    "prev_end out + 1 < int (length ?ls)"
    by (auto simp: loop_inv_def)
  have last_ok: "chunks_ok ?ls ov (if out = [] then 0 else startLine (last out))
       (if out = [] then - 1 else endLine (last out))
       [\<lparr>tc_text = join_lines cur, startLine = start, endLine = int (length ?ls) - 1\<rparr>]"
    using f by (simp add: prev_start_def prev_end_def)
  have ok: "chunks_ok ?ls ov 0 (- 1) (chunkText doc cs ov)"
    by (simp only: eq chunks_ok_snoc f(1) last_ok simp_thms)
  have "concat (fresh_regions (- 1) (chunkText doc cs ov)) = [0..int (length ?ls) - 1]"
    using fresh_regions_cover[OF ok] by (simp add: eq)
  with ok show ?thesis by simp
qed

text \<open>
  C2 as stated fails. With target size 2 and overlap 1, the buffer closed before the
  second line holds one line of 2 estimated tokens; the loop takes it, since
  \<open>0 < 1\<close>, and the window seeded into the next chunk has 2 tokens, more than the
  overlap.
\<close>

theorem chunkText_overlap_counterexample:
  "chunkText (''aaaaaaaa'' @ [newline] @ ''bbbbbbbb'') 2 1 =
     [\<lparr>tc_text = ''aaaaaaaa'', startLine = 0, endLine = 0\<rparr>,
      \<lparr>tc_text = ''aaaaaaaa'' @ [newline] @ ''bbbbbbbb'', startLine = 0, endLine = 1\<rparr>] \<and>
   overlap_loop (rev [''aaaaaaaa'']) 1 [] 0 = ([''aaaaaaaa''], 2) \<and>
   tokens [''aaaaaaaa''] = 2 \<and> \<not> int (tokens [''aaaaaaaa'']) \<le> 1"
  by (simp add: chunkText_def newline_def estimateTokens_def tokens_def Let_def)

text \<open>
  C7. \<open>chunkText\<close> applied to the empty string should produce no chunk. It produces
  one: \<open>''.split('\n')\<close> is one empty line, so the loop runs once, the buffer holds that
  line, and the final guard \<open>currentChunk.length > 0\<close> lets a chunk with empty text
  through.
\<close>

theorem chunkText_empty_input:
  "chunkText [] cs ov = [\<lparr>tc_text = [], startLine = 0, endLine = 0\<rparr>]"
  by (simp add: chunkText_def estimateTokens_def Let_def)

text \<open>
  A text of a single line, whatever its estimated token count, becomes one chunk that
  holds the line; chunks are always whole-line ranges, as shown above.
\<close>

lemma chunkText_single_line:
  "newline \<notin> set t \<Longrightarrow> chunkText t cs ov = [\<lparr>tc_text = t, startLine = 0, endLine = 0\<rparr>]"
  by (simp add: chunkText_def split_lines_no_newline Let_def)

subsection \<open>Cosine similarity\<close>
















subsection \<open>Search\<close>






















subsection \<open>Similar notes\<close>



























subsection \<open>Context notes\<close>

lemma not_in_context_iff: "not_in_context ns p \<longleftrightarrow> p \<notin> path ` set ns"
  by (auto simp: not_in_context_def find_None_iff)

lemma ondrop_distinct: "distinct (map path ns) \<Longrightarrow> distinct (map path (ondrop v p ns))"
  by (auto simp: ondrop_def Let_def not_in_context_iff split: option.splits TAbstractFile.splits)

lemma showNoteSuggest_distinct:
  "distinct (map path ns) \<Longrightarrow> distinct (map path (showNoteSuggest f ns))"
  by (auto simp: showNoteSuggest_def not_in_context_iff)

lemma showTagSuggest_distinct:
  "distinct (map path ns) \<Longrightarrow> distinct (map path (showTagSuggest cache tag files ns))"
  by (induction files arbitrary: ns) (auto simp: not_in_context_iff)

lemma showFolderSuggest_distinct:
  "distinct (map path ns) \<Longrightarrow> distinct (map path (showFolderSuggest folder files ns))"
  by (induction files arbitrary: ns) (auto simp: not_in_context_iff)

lemma linked_loop_distinct:
  "distinct (map path ns) \<Longrightarrow> distinct (map path (linked_loop ls ns))"
  by (induction ls arbitrary: ns) (auto simp: not_in_context_iff split: option.splits)

lemma addLinkedNotes_distinct:
  "distinct (map path ns) \<Longrightarrow> distinct (map path (addLinkedNotes a ls ns))"
  by (auto simp: addLinkedNotes_def linked_loop_distinct split: option.splits)

lemma autoAddCurrentNote_distinct:
  "distinct (map path ns) \<Longrightarrow> distinct (map path (autoAddCurrentNote a ns))"
  by (auto simp: autoAddCurrentNote_def split: option.splits)

lemma remove_context_distinct:
  "distinct (map path ns) \<Longrightarrow> distinct (map path (remove_context p ns))"
  by (simp add: remove_context_def distinct_map_filter)

lemma context_step_distinct:
  "distinct (map path ns) \<Longrightarrow> distinct (map path (context_step ns e))"
  by (cases e)
     (simp_all add: ondrop_distinct showNoteSuggest_distinct showTagSuggest_distinct
        showFolderSuggest_distinct addLinkedNotes_distinct autoAddCurrentNote_distinct
        remove_context_distinct)

lemma foldl_context_step_distinct:
  "distinct (map path ns) \<Longrightarrow> distinct (map path (foldl context_step ns es))"
  by (induction es arbitrary: ns) (simp_all add: context_step_distinct)

text \<open>
  C10. After any sequence of events that touch the context list (a drop, the note, tag
  and folder pickers, linked notes, the automatic addition of the active note, a removal,
  clearing the chat), no two entries of the list have the same path.
\<close>

theorem context_notes_no_duplicate_paths: "distinct (map path (context_after events))"
  unfolding context_after_def
  by (rule foldl_context_step_distinct) (simp add: initial_chat_def)

subsection \<open>Loading the index\<close>

lemma load_loop_data:
  "map (\<lambda>c. (ic_text c, embedding c, ic_startLine c, ic_endLine c)) (load_loop v items acc) =
     map (\<lambda>c. (ic_text c, embedding c, ic_startLine c, ic_endLine c)) acc @
     map (\<lambda>i. (sc_text i, sc_embedding i, sc_startLine i, sc_endLine i))
       (filter (\<lambda>i. resolves v (filePath i)) items)"
  by (induction items arbitrary: acc)
     (auto simp: resolves_def split: option.splits TAbstractFile.splits)

lemma load_loop_files:
  "map (\<lambda>c. Some (AFile (ic_file c))) (load_loop v items acc) =
     map (\<lambda>c. Some (AFile (ic_file c))) acc @
     map (\<lambda>i. v (filePath i)) (filter (\<lambda>i. resolves v (filePath i)) items)"
  by (induction items arbitrary: acc)
     (auto simp: resolves_def split: option.splits TAbstractFile.splits)

text \<open>
  C9. Without a persisted store \<open>loadIndex\<close> leaves the index as it is, which at startup
  is the empty index; it never raises. With a store, the loaded chunks are exactly the
  stored records whose path resolves to a file, in their stored order, each with its
  stored data and the file its path resolves to; every other record is dropped.
\<close>

theorem loadIndex_prunes:
  "loadIndex v Absent initial_plugin = initial_plugin \<and>
   chunks (vaultIndex initial_plugin) = [] \<and>
   loadIndex v Absent s = s \<and>
   map (\<lambda>c. (ic_text c, embedding c, ic_startLine c, ic_endLine c))
       (chunks (vaultIndex (loadIndex v (Stored items ts) s))) =
     map (\<lambda>i. (sc_text i, sc_embedding i, sc_startLine i, sc_endLine i))
       (filter (\<lambda>i. resolves v (filePath i)) items) \<and>
   map (\<lambda>c. Some (AFile (ic_file c))) (chunks (vaultIndex (loadIndex v (Stored items ts) s))) =
     map (\<lambda>i. v (filePath i)) (filter (\<lambda>i. resolves v (filePath i)) items)"
  by (simp add: loadIndex_def initial_plugin_def load_loop_data load_loop_files)

text \<open>
  Loading what \<open>saveIndex\<close> wrote gives the index back when every chunk's file is still
  the vault's file at its path.
\<close>

lemma load_loop_saved:
  assumes "\<forall>c\<in>set cs. v (path (ic_file c)) = Some (AFile (ic_file c))"
  shows "load_loop v (map serialize_chunk cs) acc = acc @ cs"
  using assms by (induction cs arbitrary: acc) (simp_all add: serialize_chunk_def)

lemma loadIndex_saveIndex:
  assumes "\<forall>c\<in>set (chunks (vaultIndex s)). v (path (ic_file c)) = Some (AFile (ic_file c))"
  shows "vaultIndex (loadIndex v (saveIndex s) s') = vaultIndex s"
  using assms by (simp add: loadIndex_def saveIndex_def load_loop_saved)

subsection \<open>Rebuild\<close>

lemma reachable_flag: "reachable sn \<Longrightarrow> snd sn \<le> 1 \<and> (isIndexing (fst sn) \<longleftrightarrow> snd sn = 1)"
proof (induction rule: reachable.induct)
  case start
  then show ?case by (simp add: initial_plugin_def)
next
  case (load s n v store)
  then show ?case by (simp add: loadIndex_def split: persisted.splits)
next
  case (request s n)
  then show ?case by (auto simp: rebuild_enter_def)
next
  case (assigned s n cfg h files now s')
  then show ?case by (auto simp: rebuild_try_def split: option.splits)
next
  case (caught s n)
  then show ?case by (simp add: rebuild_catch_def)
next
  case (finished s n)
  then show ?case by (simp add: rebuild_finally_def)
qed

lemma rebuild_run_clears: "\<not> isIndexing (snd (rebuild_run cfg h files now s))"
  by (simp add: rebuild_run_def rebuild_finally_def split: option.splits)

text \<open>
  C5. In every state the plugin can reach, at most one rebuild is in flight, and the flag
  is set exactly when one is. A request made while the flag is set is rejected at once:
  it is reported with a notice and changes neither the index nor the flag. A rebuild that
  passed the guard clears the flag when it ends, whether it completed or threw.
\<close>

theorem rebuild_mutual_exclusion:
  "(reachable (s, n) \<longrightarrow> n \<le> 1 \<and> (isIndexing s \<longleftrightarrow> n = 1)) \<and>
   (isIndexing s1 \<longrightarrow>
      rebuildIndex cfg h files now s1 =
        (Rejected, s1\<lparr>notices := notices s1 @ [''Indexing already in progress...'']\<rparr>) \<and>
      rebuild_enter s1 =
        (Some Rejected, s1\<lparr>notices := notices s1 @ [''Indexing already in progress...'']\<rparr>)) \<and>
   (\<not> isIndexing s2 \<longrightarrow>
      fst (rebuildIndex cfg h files now s2) \<noteq> Rejected \<and>
      \<not> isIndexing (snd (rebuildIndex cfg h files now s2))) \<and>
   \<not> isIndexing (snd (rebuild_run cfg h files now s3))"
  using reachable_flag[of "(s, n)"]
  by (auto simp: rebuildIndex_def rebuild_enter_def rebuild_run_def rebuild_finally_def
           split: option.splits)

lemma reachable_after_request: "reachable (snd (rebuild_enter initial_plugin), 1)"
  using reachable.request[OF reachable.start] by (simp add: initial_plugin_def)

theorem rebuild_mutual_exclusion_witness:
  "reachable (snd (rebuild_enter initial_plugin), 1) \<and>
   isIndexing (snd (rebuild_enter initial_plugin)) \<and>
   \<not> isIndexing initial_plugin \<and>
   fst (rebuildIndex demo_settings failing_host None 0 (snd (rebuild_enter initial_plugin))) = Rejected \<and>
   vaultIndex (snd (rebuildIndex demo_settings failing_host None 0 (snd (rebuild_enter initial_plugin)))) 
      = vaultIndex initial_plugin \<and>
   fst (rebuildIndex demo_settings failing_host None 0 initial_plugin) = Failed \<and>
   \<not> isIndexing (snd (rebuildIndex demo_settings failing_host None 0 initial_plugin))"
  using rebuild_mutual_exclusion[of "snd (rebuild_enter initial_plugin)" 1 "snd (rebuild_enter initial_plugin)"
      demo_settings failing_host None 0 initial_plugin initial_plugin] reachable_after_request
  by (simp add: initial_plugin_def rebuild_enter_def rebuildIndex_def rebuild_run_def rebuild_try_def rebuild_finally_def rebuild_catch_def)

subsection \<open>Sending\<close>

text \<open>
  C4. When the completion call of a send fails, the message history after the send is the
  history from before it: the user message appended at the start is removed, no
  assistant message is added, the length is unchanged, and the loading flag is cleared.
\<close>

theorem sendMessage_rollback:
  "fst (sendMessage cfg plugin h s) = SendFailed err \<Longrightarrow>
     messages (snd (sendMessage cfg plugin h s)) = messages s \<and>
     length (messages (snd (sendMessage cfg plugin h s))) = length (messages s) \<and>
     \<not> isLoading (snd (sendMessage cfg plugin h s))"
  by (auto simp: sendMessage_def Let_def performSemanticSearch_def
        split: if_splits option.splits sum.splits)


theorem sendMessage_rollback_witness:
  "fst (sendMessage demo_settings initial_plugin failing_host
          (initial_chat\<lparr>messages := [\<lparr>role = User, content = ''a''\<rparr>,
                                       \<lparr>role = Assistant, content = ''b''\<rparr>],
                         inputValue := ''hi''\<rparr>)) = SendFailed ''API error 500: '' \<and>
   messages (snd (sendMessage demo_settings initial_plugin failing_host
          (initial_chat\<lparr>messages := [\<lparr>role = User, content = ''a''\<rparr>,
                                       \<lparr>role = Assistant, content = ''b''\<rparr>],
                         inputValue := ''hi''\<rparr>))) =
     [\<lparr>role = User, content = ''a''\<rparr>, \<lparr>role = Assistant, content = ''b''\<rparr>]"
proof -
  have failed: "fst (sendMessage demo_settings initial_plugin failing_host
          (initial_chat\<lparr>messages := [\<lparr>role = User, content = ''a''\<rparr>,
                                       \<lparr>role = Assistant, content = ''b''\<rparr>],
                         inputValue := ''hi''\<rparr>)) = SendFailed ''API error 500: ''"
    by (simp add: sendMessage_def Let_def trim_def is_space_def demo_settings_def
          initial_chat_def initial_plugin_def failing_host_def)
  show ?thesis
    using failed sendMessage_rollback [OF failed] by (simp add: initial_chat_def)
qed

end
